theory Spec2Isabelle
  imports Main "HOL-Library.Sublist"
begin

section \<open>Python strings and integers\<close>

text \<open>
  A Python \<open>str\<close> is a sequence of code points. It is modelled as \<^typ>\<open>string\<close>, each
  \<^typ>\<open>char\<close> read as the code point of the same number (U+0000 to U+00FF); code points
  above U+00FF are outside the model. The character predicates below are the ones of
  \<open>str.isalpha\<close>, \<open>str.isdecimal\<close>, \<open>str.isdigit\<close>, \<open>str.isnumeric\<close> and
  \<open>str.isalnum\<close> on that range.
\<close>

definition ord :: "char \<Rightarrow> nat" where
  "ord c = of_char c"

definition py_isdecimal :: "char \<Rightarrow> bool" where
  "py_isdecimal c = (48 \<le> ord c \<and> ord c \<le> 57)"

definition py_isdigit :: "char \<Rightarrow> bool" where
  "py_isdigit c = (py_isdecimal c \<or> ord c = 0xB2 \<or> ord c = 0xB3 \<or> ord c = 0xB9)"

definition py_isnumeric :: "char \<Rightarrow> bool" where
  "py_isnumeric c = (py_isdigit c \<or> ord c = 0xBC \<or> ord c = 0xBD \<or> ord c = 0xBE)"

definition py_isalpha :: "char \<Rightarrow> bool" where
  "py_isalpha c =
     ((65 \<le> ord c \<and> ord c \<le> 90) \<or> (97 \<le> ord c \<and> ord c \<le> 122) \<or>
      ord c = 0xAA \<or> ord c = 0xB5 \<or> ord c = 0xBA \<or>
      (0xC0 \<le> ord c \<and> ord c \<le> 0xD6) \<or> (0xD8 \<le> ord c \<and> ord c \<le> 0xF6) \<or>
      0xF8 \<le> ord c)"

definition py_isalnum :: "char \<Rightarrow> bool" where
  "py_isalnum c = (py_isalpha c \<or> py_isdecimal c \<or> py_isdigit c \<or> py_isnumeric c)"

text \<open>\<open>s.isdigit()\<close> and \<open>s.isalnum()\<close>: every character, and at least one.\<close>

definition str_isdigit :: "string \<Rightarrow> bool" where
  "str_isdigit s = (s \<noteq> [] \<and> list_all py_isdigit s)"

definition str_isalnum :: "string \<Rightarrow> bool" where
  "str_isalnum s = (s \<noteq> [] \<and> list_all py_isalnum s)"

text \<open>\<open>s[i:j]\<close> for indices \<open>0 \<le> i\<close>, \<open>0 \<le> j\<close>.\<close>

definition slice :: "nat \<Rightarrow> nat \<Rightarrow> 'a list \<Rightarrow> 'a list" where
  "slice i j xs = drop i (take j xs)"

text \<open>\<open>sub in s\<close>.\<close>

fun contains :: "string \<Rightarrow> string \<Rightarrow> bool" where
  "contains sub [] = (sub = [])"
| "contains sub (c # cs) = (prefix sub (c # cs) \<or> contains sub cs)"

text \<open>
  \<open>s.split(sep)\<close> for a non-empty separator: the pieces between the occurrences of
  \<open>sep\<close>, found left to right without overlap. (Python raises on an empty separator; no
  caller here passes one, and the model then never splits.)
\<close>

fun split_from :: "string \<Rightarrow> string \<Rightarrow> string \<Rightarrow> string list" where
  "split_from sep cur [] = [rev cur]"
| "split_from sep cur (c # cs) =
     (if sep \<noteq> [] \<and> prefix sep (c # cs)
      then rev cur # split_from sep [] (drop (length sep - 1) cs)
      else split_from sep (c # cur) cs)"

definition split :: "string \<Rightarrow> string \<Rightarrow> string list" where
  "split s sep = split_from sep [] s"

text \<open>\<open>s.replace(old, new)\<close> for a non-empty \<open>old\<close>: every occurrence, left to right.\<close>

fun replace_all :: "string \<Rightarrow> string \<Rightarrow> string \<Rightarrow> string" where
  "replace_all old new [] = []"
| "replace_all old new (c # cs) =
     (if old \<noteq> [] \<and> prefix old (c # cs)
      then new @ replace_all old new (drop (length old - 1) cs)
      else c # replace_all old new cs)"

text \<open>
  \<open>int(s, base)\<close> for base 10 and base 16, \<open>None\<close> where Python raises \<open>ValueError\<close>.
  White space around the number is dropped, a sign may follow, then for base 16 an
  optional \<open>0x\<close> or \<open>0X\<close> (after which one underscore may stand), then digits with
  single underscores between them. The interpreter's optional limit on the number of
  decimal digits is not modelled.
\<close>

definition int_isspace :: "char \<Rightarrow> bool" where
  "int_isspace c = (ord c \<in> {0x09, 0x0A, 0x0B, 0x0C, 0x0D, 0x20, 0x85, 0xA0})"

definition strip :: "string \<Rightarrow> string" where
  "strip s = rev (dropWhile int_isspace (rev (dropWhile int_isspace s)))"

definition digit_value :: "char \<Rightarrow> nat option" where
  "digit_value c =
     (if 48 \<le> ord c \<and> ord c \<le> 57 then Some (ord c - 48)
      else if 97 \<le> ord c \<and> ord c \<le> 122 then Some (ord c - 87)
      else if 65 \<le> ord c \<and> ord c \<le> 90 then Some (ord c - 55)
      else None)"

definition digit_in :: "nat \<Rightarrow> char \<Rightarrow> nat option" where
  "digit_in base c =
     (case digit_value c of
        None \<Rightarrow> None
      | Some v \<Rightarrow> if v < base then Some v else None)"

fun more_digits :: "nat \<Rightarrow> nat \<Rightarrow> string \<Rightarrow> nat option" where
  "more_digits base acc [] = Some acc"
| "more_digits base acc [c] =
     (case digit_in base c of None \<Rightarrow> None | Some v \<Rightarrow> Some (acc * base + v))"
| "more_digits base acc (c # d # ds) =
     (if c = CHR ''_''
      then (case digit_in base d of
              None \<Rightarrow> None
            | Some v \<Rightarrow> more_digits base (acc * base + v) ds)
      else (case digit_in base c of
              None \<Rightarrow> None
            | Some v \<Rightarrow> more_digits base (acc * base + v) (d # ds)))"

definition digit_run :: "nat \<Rightarrow> string \<Rightarrow> nat option" where
  "digit_run base s =
     (case s of
        [] \<Rightarrow> None
      | c # cs \<Rightarrow> (case digit_in base c of
                     None \<Rightarrow> None
                   | Some v \<Rightarrow> more_digits base v cs))"

definition unprefixed :: "nat \<Rightarrow> string \<Rightarrow> string" where
  "unprefixed base s =
     (if base = 16 \<and> (prefix ''0x'' s \<or> prefix ''0X'' s)
      then (if prefix ''_'' (drop 2 s) then drop 3 s else drop 2 s)
      else s)"

definition py_int :: "nat \<Rightarrow> string \<Rightarrow> int option" where
  "py_int base s =
     (let t = strip s in
      if prefix ''-'' t then map_option (\<lambda>n. - int n) (digit_run base (unprefixed base (tl t)))
      else if prefix ''+'' t then map_option int (digit_run base (unprefixed base (tl t)))
      else map_option int (digit_run base (unprefixed base t)))"

text \<open>\<open>str(n)\<close> for an integer.\<close>

fun str_nat :: "nat \<Rightarrow> string" where
  "str_nat n =
     (if n < 10 then [char_of (48 + n)] else str_nat (n div 10) @ [char_of (48 + n mod 10)])"

definition str_int :: "int \<Rightarrow> string" where
  "str_int i = (if i < 0 then CHR ''-'' # str_nat (nat (- i)) else str_nat (nat i))"

section \<open>Validators of the pattern matchers\<close>

text \<open>
  \<open>re.sub(r'\D', '', text)\<close>: the decimal digits of \<open>text\<close>, in order. On the code
  points of the model \<open>\d\<close> is \<open>0\<close> to \<open>9\<close>.
\<close>

definition remove_non_digits :: "string \<Rightarrow> string" where
  "remove_non_digits text = filter py_isdecimal text"

subsection \<open>\<open>SSNRedactor.validate\<close> (redactors/ssn.py)\<close>

text \<open>\<open>None\<close> stands for a \<open>ValueError\<close> leaving \<open>int\<close>, which the method does not catch.\<close>

definition SSNRedactor_validate :: "string \<Rightarrow> bool option" where
  "SSNRedactor_validate text =
     (let digits = remove_non_digits text in
      if length digits \<noteq> 9 then Some False
      else (case py_int 10 (slice 0 3 digits) of
        None \<Rightarrow> None
      | Some area \<Rightarrow>
          if area = 0 \<or> area = 666 \<or> area \<ge> 900 then Some False
          else (case py_int 10 (slice 3 5 digits) of
            None \<Rightarrow> None
          | Some group_no \<Rightarrow>
              if group_no = 0 then Some False
              else (case py_int 10 (slice 5 9 digits) of
                None \<Rightarrow> None
              | Some serial \<Rightarrow> if serial = 0 then Some False else Some True))))"

subsection \<open>\<open>CreditCardRedactor.validate\<close> (redactors/credit_card.py)\<close>

text \<open>\<open>[int(d) for d in s]\<close>.\<close>

fun digits_of :: "string \<Rightarrow> int list option" where
  "digits_of [] = Some []"
| "digits_of (d # ds) =
     (case py_int 10 [d] of
        None \<Rightarrow> None
      | Some v \<Rightarrow> map_option ((#) v) (digits_of ds))"

text \<open>\<open>xs[-1::-2]\<close> is \<open>every_second (rev xs)\<close>, \<open>xs[-2::-2]\<close> is \<open>every_second (tl (rev xs))\<close>.\<close>

fun every_second :: "'a list \<Rightarrow> 'a list" where
  "every_second [] = []"
| "every_second [x] = [x]"
| "every_second (x # y # zs) = x # every_second zs"

text \<open>The loop \<open>for d in even_digits: checksum += sum(digits_of(d * 2))\<close>.\<close>

fun add_doubled :: "int \<Rightarrow> int list \<Rightarrow> int option" where
  "add_doubled checksum [] = Some checksum"
| "add_doubled checksum (d # ds) =
     (case digits_of (str_int (d * 2)) of
        None \<Rightarrow> None
      | Some ds2 \<Rightarrow> add_doubled (checksum + sum_list ds2) ds)"

definition luhn_checksum :: "string \<Rightarrow> int option" where
  "luhn_checksum card_number =
     (case digits_of card_number of
        None \<Rightarrow> None
      | Some digits \<Rightarrow>
          (let odd_digits = every_second (rev digits);
               even_digits = every_second (tl (rev digits))
           in map_option (\<lambda>checksum. checksum mod 10)
                (add_doubled (sum_list odd_digits) even_digits)))"

definition CreditCardRedactor_validate :: "string \<Rightarrow> bool option" where
  "CreditCardRedactor_validate text =
     (let digits = remove_non_digits text in
      if length digits < 13 \<or> length digits > 19 then Some False
      else map_option (\<lambda>checksum. checksum = 0) (luhn_checksum digits))"

subsection \<open>\<open>PassportRedactor.validate\<close> (redactors/passport.py)\<close>

definition PassportRedactor_validate :: "string \<Rightarrow> bool" where
  "PassportRedactor_validate text =
     (let clean_text = replace_all '' '' [] text in
      if length clean_text < 6 \<or> length clean_text > 9 then False
      else let has_letter = list_ex py_isalpha clean_text;
               all_digits = str_isdigit clean_text
           in if \<not> (has_letter \<or> all_digits) then False
              else if \<not> str_isalnum clean_text then False
              else True)"

subsection \<open>\<open>IPAddressRedactor.validate\<close> (redactors/ip_address.py)\<close>

text \<open>The loop of \<open>_validate_ipv4\<close>; a \<open>ValueError\<close> of \<open>int\<close> is caught and gives \<open>False\<close>.\<close>

fun ipv4_parts :: "string list \<Rightarrow> bool" where
  "ipv4_parts [] = True"
| "ipv4_parts (part # parts) =
     (case py_int 10 part of
        None \<Rightarrow> False
      | Some num \<Rightarrow> if num < 0 \<or> num > 255 then False else ipv4_parts parts)"

definition validate_ipv4 :: "string \<Rightarrow> bool" where
  "validate_ipv4 text =
     (let parts = split text ''.'' in
      if length parts \<noteq> 4 then False else ipv4_parts parts)"

text \<open>The loop of \<open>_validate_ipv6\<close> over \<open>text.replace('::', ':').split(':')\<close>.\<close>

fun ipv6_parts :: "string list \<Rightarrow> bool" where
  "ipv6_parts [] = True"
| "ipv6_parts (part # parts) =
     (if part \<noteq> []
      then (case py_int 16 part of
              None \<Rightarrow> False
            | Some num \<Rightarrow> if length part > 4 then False else ipv6_parts parts)
      else ipv6_parts parts)"

definition validate_ipv6 :: "string \<Rightarrow> bool" where
  "validate_ipv6 text =
     (if contains ''::'' text
      then (if length (split text ''::'') > 2 then False
            else ipv6_parts (split (replace_all ''::'' '':'' text) '':''))
      else (if length (split text '':'') \<noteq> 8 then False
            else ipv6_parts (split (replace_all ''::'' '':'' text) '':'')))"

definition IPAddressRedactor_validate :: "string \<Rightarrow> bool" where
  "IPAddressRedactor_validate text =
     (if validate_ipv4 text then True
      else if validate_ipv6 text then True
      else False)"

section \<open>Tokens, results and the base pattern matcher (base.py)\<close>

text \<open>
  Throughout, a result of type \<open>'a option\<close> is \<open>None\<close> when the call produces no value: an
  exception leaves it, or (for the chunking loop) it does not terminate.

  The digests of \<open>hashlib\<close> and the matching of \<open>re\<close> are library code. A digest is taken
  as a parameter (a record of the two \<open>hexdigest\<close> functions the program calls); a compiled
  pattern is taken as its \<open>finditer\<close>: the spans \<open>(start, end)\<close> of its matches in a text,
  left to right.
\<close>

record hashlib =
  sha256_hexdigest :: "string \<Rightarrow> string"
  md5_hexdigest :: "string \<Rightarrow> string"

datatype RedactionType =
  EMAIL | PHONE | SSN | CREDIT_CARD | BANK_ACCOUNT | IP_ADDRESS | PASSPORT | CUSTOM

fun type_value :: "RedactionType \<Rightarrow> string" where
  "type_value EMAIL = ''email''"
| "type_value PHONE = ''phone''"
| "type_value SSN = ''ssn''"
| "type_value CREDIT_CARD = ''credit_card''"
| "type_value BANK_ACCOUNT = ''bank_account''"
| "type_value IP_ADDRESS = ''ip_address''"
| "type_value PASSPORT = ''passport''"
| "type_value CUSTOM = ''custom''"

record RedactionToken =
  token_id :: string
  original_value :: string
  redaction_type :: RedactionType
  start_pos :: nat
  end_pos :: nat

text \<open>The \<open>metadata\<close> of a result is always the empty dictionary and is left out.\<close>

record RedactionResult =
  redacted_text :: string
  tokens :: "RedactionToken list"

record BaseRedactor =
  redactor_type :: RedactionType
  finditer :: "string \<Rightarrow> (nat \<times> nat) list"
  validate :: "string \<Rightarrow> bool option"

text \<open>\<open>s.upper()\<close> on the letters \<open>a\<close> to \<open>z\<close>; the enum values and category names are ASCII.\<close>

definition upper :: "string \<Rightarrow> string" where
  "upper s = map (\<lambda>c. if 97 \<le> ord c \<and> ord c \<le> 122 then char_of (ord c - 32) else c) s"

definition generate_token_id :: "hashlib \<Rightarrow> BaseRedactor \<Rightarrow> string \<Rightarrow> nat \<Rightarrow> string" where
  "generate_token_id hl r value position =
     (let tv = type_value (redactor_type r);
          unique_str = value @ ''_'' @ str_nat position @ ''_'' @ tv
      in ''['' @ upper tv @ ''_'' @ take 8 (sha256_hexdigest hl unique_str) @ '']'')"

text \<open>
  The loop of \<open>BaseRedactor.redact\<close> over the matches, last match first: \<open>result\<close> is the
  text rewritten so far, \<open>toks\<close> the tokens, each new one put in front.
\<close>

fun redact_matches ::
  "hashlib \<Rightarrow> BaseRedactor \<Rightarrow> string \<Rightarrow> nat \<Rightarrow> (nat \<times> nat) list \<Rightarrow>
   string \<times> RedactionToken list \<Rightarrow> (string \<times> RedactionToken list) option" where
  "redact_matches hl r txt offs [] acc = Some acc"
| "redact_matches hl r txt offs ((match_start, match_end) # ms) (result, toks) =
     (let value = slice match_start match_end txt in
      case validate r value of
        None \<Rightarrow> None
      | Some False \<Rightarrow> redact_matches hl r txt offs ms (result, toks)
      | Some True \<Rightarrow>
          (let tid = generate_token_id hl r value (offs + match_start);
               token = \<lparr>token_id = tid, original_value = value,
                        redaction_type = redactor_type r,
                        start_pos = offs + match_start, end_pos = offs + match_end\<rparr>
           in redact_matches hl r txt offs ms
                (take match_start result @ tid @ drop match_end result, token # toks)))"

definition BaseRedactor_redact ::
  "hashlib \<Rightarrow> BaseRedactor \<Rightarrow> string \<Rightarrow> nat \<Rightarrow> (string \<times> RedactionToken list) option" where
  "BaseRedactor_redact hl r txt offs =
     (let matches = finditer r txt in
      if matches = [] then Some (txt, [])
      else redact_matches hl r txt offs (rev matches) (txt, []))"

section \<open>The chunker (utils/chunking.py)\<close>

text \<open>\<open>text.rfind(' ', start, end)\<close>: the last index in \<open>[start, end)\<close> holding a space.\<close>

definition rfind_space :: "string \<Rightarrow> nat \<Rightarrow> nat \<Rightarrow> nat option" where
  "rfind_space txt start end' =
     (case filter (\<lambda>i. txt ! i = CHR '' '') (rev [start..<min end' (length txt)]) of
        [] \<Rightarrow> None
      | i # _ \<Rightarrow> Some i)"

text \<open>Where the chunk that begins at \<open>start\<close> ends.\<close>

definition chunk_end :: "nat \<Rightarrow> string \<Rightarrow> nat \<Rightarrow> nat" where
  "chunk_end csize txt start =
     (let end' = min (start + csize) (length txt) in
      if end' < length txt
      then (case rfind_space txt start end' of
              None \<Rightarrow> end'
            | Some last_space \<Rightarrow> if last_space > start then last_space + 1 else end')
      else end')"

text \<open>
  The \<open>while start < len(text)\<close> loop. With \<open>chunk_size = 0\<close> it never advances; the model
  then gives \<open>None\<close>.
\<close>

partial_function (option) chunk_loop ::
  "nat \<Rightarrow> string \<Rightarrow> nat \<Rightarrow> (string \<times> nat) list \<Rightarrow> (string \<times> nat) list option" where
  "chunk_loop csize txt start chunks =
     (if start < length txt
      then chunk_loop csize txt (chunk_end csize txt start)
             (chunks @ [(slice start (chunk_end csize txt start) txt, start)])
      else Some chunks)"

declare chunk_loop.simps [code]

definition chunk_text :: "nat \<Rightarrow> string \<Rightarrow> (string \<times> nat) list option" where
  "chunk_text csize txt =
     (if length txt \<le> csize then Some [(txt, 0)] else chunk_loop csize txt 0 [])"

definition merge_results ::
  "(string \<times> nat \<times> RedactionToken list) list \<Rightarrow> string \<times> RedactionToken list" where
  "merge_results chunk_results =
     (case chunk_results of
        [] \<Rightarrow> ([], [])
      | [(chunk, start, toks)] \<Rightarrow> (chunk, toks)
      | _ \<Rightarrow> (concat (map fst chunk_results), concat (map (snd \<circ> snd) chunk_results)))"

section \<open>The cloud detector (cloud\_detectors/azure\_text\_analytics.py)\<close>

text \<open>
  An entity as \<open>detect_pii\<close> builds it from the service's answer; the sub-category and the
  confidence score play no part in the redaction and are left out. A document of the answer
  is either an error or a list of entities.
\<close>

record PiiEntity =
  entity_text :: string
  category :: string
  offset :: nat
  entity_length :: nat

record PiiDocument =
  is_error :: bool
  entities :: "PiiEntity list"

text \<open>
  The detector: whether the SDK can be imported and a credential was given (the two things
  \<open>_get_client\<close> needs), and the remote call \<open>client.recognize_pii_entities\<close>, whose result
  is \<open>Inl\<close> of a message when the call raises an \<open>Exception\<close> and \<open>Inr\<close> of the answer
  otherwise.
\<close>

record AzureDetector =
  sdk_installed :: bool
  has_credential :: bool
  recognize_pii_entities :: "string \<Rightarrow> string + PiiDocument list"

definition get_client :: "AzureDetector \<Rightarrow> unit option" where
  "get_client det = (if sdk_installed det \<and> has_credential det then Some () else None)"

definition detect_pii :: "AzureDetector \<Rightarrow> string \<Rightarrow> PiiEntity list option" where
  "detect_pii det txt =
     (case get_client det of
        None \<Rightarrow> None
      | Some client \<Rightarrow>
          (case recognize_pii_entities det txt of
             Inl e \<Rightarrow> Some []
           | Inr response \<Rightarrow>
               Some (concat (map (\<lambda>doc. if \<not> is_error doc then entities doc else [])
                              response))))"

definition map_azure_category :: "string \<Rightarrow> RedactionType" where
  "map_azure_category c =
     (if c = ''Email'' then EMAIL
      else if c = ''PhoneNumber'' then PHONE
      else if c = ''CreditCard'' then CREDIT_CARD
      else if c = ''IPAddress'' then IP_ADDRESS
      else if c = ''SSN'' \<or> c = ''USSocialSecurityNumber'' then SSN
      else CUSTOM)"

text \<open>\<open>sorted(xs, key=k, reverse=True)\<close>: descending, equal keys in their original order.\<close>

definition sorted_reverse :: "('a \<Rightarrow> nat) \<Rightarrow> 'a list \<Rightarrow> 'a list" where
  "sorted_reverse k xs = rev (sort_key k (rev xs))"

text \<open>The loop of \<open>_redact_with_entities\<close> over the sorted entities.\<close>

definition redact_entity ::
  "hashlib \<Rightarrow> PiiEntity \<Rightarrow> string \<times> RedactionToken list \<Rightarrow> string \<times> RedactionToken list"
  where
  "redact_entity hl entity acc =
     (let start = offset entity;
          end' = start + entity_length entity;
          replacement =
            ''['' @ upper (category entity) @ ''_'' @
            take 8 (md5_hexdigest hl (entity_text entity @ str_nat start)) @ '']'';
          token = \<lparr>token_id = replacement, original_value = entity_text entity,
                   redaction_type = map_azure_category (category entity),
                   start_pos = start, end_pos = end'\<rparr>
      in (take start (fst acc) @ replacement @ drop end' (fst acc), snd acc @ [token]))"

primrec redact_entities ::
  "hashlib \<Rightarrow> PiiEntity list \<Rightarrow> string \<times> RedactionToken list \<Rightarrow> string \<times> RedactionToken list"
  where
  "redact_entities hl [] acc = acc"
| "redact_entities hl (entity # es) acc = redact_entities hl es (redact_entity hl entity acc)"

definition redact_with_entities :: "hashlib \<Rightarrow> string \<Rightarrow> PiiEntity list \<Rightarrow> RedactionResult" where
  "redact_with_entities hl txt ents =
     (if ents = [] then \<lparr>redacted_text = txt, tokens = []\<rparr>
      else (case redact_entities hl (sorted_reverse offset ents) (txt, []) of
              (result, toks) \<Rightarrow> \<lparr>redacted_text = result, tokens = toks\<rparr>))"

definition AzureDetector_redact ::
  "hashlib \<Rightarrow> AzureDetector \<Rightarrow> string \<Rightarrow> RedactionResult option" where
  "AzureDetector_redact hl det txt =
     (if txt = [] then Some \<lparr>redacted_text = [], tokens = []\<rparr>
      else (case detect_pii det txt of
              None \<Rightarrow> None
            | Some ents \<Rightarrow> Some (redact_with_entities hl txt ents)))"

section \<open>The service (service.py)\<close>

text \<open>
  The configuration of a \<open>RedactionService\<close>. The sizes are natural numbers (the
  specification asks for a positive \<open>chunk_size\<close> and a non-negative \<open>async_threshold\<close>).
  The cloud detector, when there is one, is the Azure detector.
\<close>

record RedactionService =
  redactors :: "BaseRedactor list"
  chunk_size :: nat
  parallel :: bool
  async_threshold :: nat
  use_cloud_detection :: bool
  cloud_detector :: "AzureDetector option"

text \<open>
  The token store is a dictionary from token id to token. Python dictionaries keep the
  order of first insertion, and \<open>unmask\<close> reads the values in that order, so the store is a
  list of pairs: a new key goes to the end, an old key keeps its place.
\<close>

type_synonym token_store = "(string \<times> RedactionToken) list"

fun store_put :: "token_store \<Rightarrow> string \<Rightarrow> RedactionToken \<Rightarrow> token_store" where
  "store_put [] k v = [(k, v)]"
| "store_put ((k', v') # kvs) k v =
     (if k' = k then (k, v) # kvs else (k', v') # store_put kvs k v)"

definition store_tokens_in :: "token_store \<Rightarrow> RedactionToken list \<Rightarrow> token_store" where
  "store_tokens_in store toks = foldl (\<lambda>st t. store_put st (token_id t) t) store toks"

text \<open>The loop of \<open>_redact_single\<close> over the configured matchers, each fed the text the last one wrote.\<close>

fun apply_redactors ::
  "hashlib \<Rightarrow> BaseRedactor list \<Rightarrow> nat \<Rightarrow> string \<times> RedactionToken list \<Rightarrow>
   (string \<times> RedactionToken list) option" where
  "apply_redactors hl [] offs acc = Some acc"
| "apply_redactors hl (r # rs) offs (current_text, toks) =
     (case BaseRedactor_redact hl r current_text offs of
        None \<Rightarrow> None
      | Some (redacted, new_toks) \<Rightarrow> apply_redactors hl rs offs (redacted, toks @ new_toks))"

definition redact_single ::
  "hashlib \<Rightarrow> RedactionService \<Rightarrow> token_store \<Rightarrow> string \<Rightarrow> nat \<Rightarrow> bool \<Rightarrow>
   (RedactionResult \<times> token_store) option" where
  "redact_single hl svc store txt offs store_tokens =
     (let result =
            (if use_cloud_detection svc \<and> cloud_detector svc \<noteq> None
             then AzureDetector_redact hl (the (cloud_detector svc)) txt
             else (case apply_redactors hl (redactors svc) offs (txt, []) of
                     None \<Rightarrow> None
                   | Some (current_text, toks) \<Rightarrow>
                       Some \<lparr>redacted_text = current_text, tokens = toks\<rparr>))
      in case result of
           None \<Rightarrow> None
         | Some res \<Rightarrow>
             Some (res, if store_tokens then store_tokens_in store (tokens res) else store))"

section \<open>The worker pools (utils/parallel.py)\<close>

text \<open>
  \<open>process_parallel\<close> with \<open>task_type = 'cpu'\<close> submits \<open>func\<close> with each item to a
  \<open>ProcessPoolExecutor\<close> and collects the results by index; whatever exception a future
  holds is caught and \<^emph>\<open>stored as that item's result\<close>. An entry of the result list is
  therefore \<open>Some\<close> of a value or \<open>None\<close> for an exception object standing in its place.
  A process pool sends the function to the worker by pickling it. A function defined inside
  another function cannot be pickled, and the future then holds the pickling error; whether
  \<open>func\<close> can be pickled is the first argument.
\<close>

definition process_parallel :: "bool \<Rightarrow> ('a \<Rightarrow> 'b option) \<Rightarrow> 'a list \<Rightarrow> 'b option list" where
  "process_parallel picklable func items =
     (if items = [] then []
      else map (\<lambda>item. if picklable then func item else None) items)"

text \<open>
  \<open>process_async\<close> gathers the coroutines with \<open>return_exceptions = True\<close>: again an
  exception becomes the result of its item. Nothing is pickled here.
\<close>

definition process_async :: "('a \<Rightarrow> 'b option) \<Rightarrow> 'a list \<Rightarrow> 'b option list" where
  "process_async func items = (if items = [] then [] else map func items)"

section \<open>Chunked redaction (service.py)\<close>

text \<open>
  The sequential loop over the chunks, each redacted with \<open>store_tokens = False\<close>, which
  leaves the store alone. An exception in a chunk leaves the loop at once.
\<close>

fun redact_chunks ::
  "hashlib \<Rightarrow> RedactionService \<Rightarrow> token_store \<Rightarrow> (string \<times> nat) list \<Rightarrow>
   RedactionResult list option" where
  "redact_chunks hl svc store [] = Some []"
| "redact_chunks hl svc store ((chunk, start) # chunks) =
     (case redact_single hl svc store chunk start False of
        None \<Rightarrow> None
      | Some (res, _) \<Rightarrow> map_option ((#) res) (redact_chunks hl svc store chunks))"

text \<open>
  The local function \<open>process_chunk\<close> of \<open>_redact_chunked\<close> and of \<open>_redact_chunked_async\<close>:
  one chunk through \<open>_redact_single\<close> with \<open>store_tokens = False\<close>.
\<close>

definition process_chunk ::
  "hashlib \<Rightarrow> RedactionService \<Rightarrow> token_store \<Rightarrow> string \<times> nat \<Rightarrow> RedactionResult option" where
  "process_chunk hl svc store chunk_data =
     (case chunk_data of
        (chunk, start) \<Rightarrow> map_option fst (redact_single hl svc store chunk start False))"

text \<open>
  \<open>_merge_chunk_results\<close>. A single entry is returned as it is. With more entries the
  comprehension reads \<open>result.redacted_text\<close> of each, which raises \<open>AttributeError\<close> on an
  exception object.
\<close>

definition merge_chunk_results ::
  "RedactionResult option list \<Rightarrow> (string \<times> nat) list \<Rightarrow> RedactionResult option" where
  "merge_chunk_results chunk_results chunks =
     (case chunk_results of
        [] \<Rightarrow> Some \<lparr>redacted_text = [], tokens = []\<rparr>
      | [res] \<Rightarrow> res
      | _ \<Rightarrow>
          (if list_all (\<lambda>res. res \<noteq> None) chunk_results
           then (case merge_results
                        (map (\<lambda>(res, c). (redacted_text (the res), snd c, tokens (the res)))
                           (zip chunk_results chunks)) of
                   (merged_text, all_tokens) \<Rightarrow>
                     Some \<lparr>redacted_text = merged_text, tokens = all_tokens\<rparr>)
           else None))"

text \<open>What both chunked entry points do with the chunk results: merge, then store.\<close>

definition merge_and_store ::
  "token_store \<Rightarrow> bool \<Rightarrow> RedactionResult option list \<Rightarrow> (string \<times> nat) list \<Rightarrow>
   (RedactionResult \<times> token_store) option" where
  "merge_and_store store store_tokens chunk_results chunks =
     (case merge_chunk_results chunk_results chunks of
        None \<Rightarrow> None
      | Some merged \<Rightarrow>
          Some (merged, if store_tokens then store_tokens_in store (tokens merged) else store))"

text \<open>
  \<open>_redact_chunked\<close>. With \<open>parallel\<close> set and more than one chunk, the local function
  \<open>process_chunk\<close> goes to \<open>process_parallel\<close> with \<open>task_type = 'cpu'\<close>: it cannot be
  pickled.
\<close>

definition redact_chunked ::
  "hashlib \<Rightarrow> RedactionService \<Rightarrow> token_store \<Rightarrow> string \<Rightarrow> bool \<Rightarrow>
   (RedactionResult \<times> token_store) option" where
  "redact_chunked hl svc store txt store_tokens =
     (case chunk_text (chunk_size svc) txt of
        None \<Rightarrow> None
      | Some chunks \<Rightarrow>
          (if parallel svc \<and> length chunks > 1
           then merge_and_store store store_tokens
                  (process_parallel False (process_chunk hl svc store) chunks) chunks
           else (case redact_chunks hl svc store chunks of
                   None \<Rightarrow> None
                 | Some chunk_results \<Rightarrow>
                     merge_and_store store store_tokens (map Some chunk_results) chunks)))"

text \<open>
  \<open>_redact_chunked_async\<close>: the same, but the chunks go to \<open>process_async\<close>, each run by
  \<open>_redact_single\<close> in the default (thread) executor.
\<close>

definition redact_chunked_async ::
  "hashlib \<Rightarrow> RedactionService \<Rightarrow> token_store \<Rightarrow> string \<Rightarrow> bool \<Rightarrow>
   (RedactionResult \<times> token_store) option" where
  "redact_chunked_async hl svc store txt store_tokens =
     (case chunk_text (chunk_size svc) txt of
        None \<Rightarrow> None
      | Some chunks \<Rightarrow>
          (if parallel svc \<and> length chunks > 1
           then merge_and_store store store_tokens
                  (process_async (process_chunk hl svc store) chunks) chunks
           else (case redact_chunks hl svc store chunks of
                   None \<Rightarrow> None
                 | Some chunk_results \<Rightarrow>
                     merge_and_store store store_tokens (map Some chunk_results) chunks)))"

section \<open>The entry points (service.py)\<close>

definition redact ::
  "hashlib \<Rightarrow> RedactionService \<Rightarrow> token_store \<Rightarrow> string \<Rightarrow> bool \<Rightarrow>
   (RedactionResult \<times> token_store) option" where
  "redact hl svc store txt store_tokens =
     (if txt = [] then Some (\<lparr>redacted_text = [], tokens = []\<rparr>, store)
      else if length txt > chunk_size svc then redact_chunked hl svc store txt store_tokens
      else redact_single hl svc store txt 0 store_tokens)"

text \<open>
  \<open>redact_async\<close>: which branch runs the work, and what it returns. Work given to the
  executor returns what the same call returns inline.
\<close>

datatype dispatch = NoWork | ChunkedAsync | Executor | Inline

definition redact_async_dispatch :: "RedactionService \<Rightarrow> string \<Rightarrow> dispatch" where
  "redact_async_dispatch svc txt =
     (if txt = [] then NoWork
      else if length txt > chunk_size svc then ChunkedAsync
      else if length txt > async_threshold svc then Executor
      else Inline)"

definition redact_async ::
  "hashlib \<Rightarrow> RedactionService \<Rightarrow> token_store \<Rightarrow> string \<Rightarrow> bool \<Rightarrow>
   (RedactionResult \<times> token_store) option" where
  "redact_async hl svc store txt store_tokens =
     (case redact_async_dispatch svc txt of
        NoWork \<Rightarrow> Some (\<lparr>redacted_text = [], tokens = []\<rparr>, store)
      | ChunkedAsync \<Rightarrow> redact_chunked_async hl svc store txt store_tokens
      | Executor \<Rightarrow> redact_single hl svc store txt 0 store_tokens
      | Inline \<Rightarrow> redact_single hl svc store txt 0 store_tokens)"

text \<open>\<open>s.replace(old, new, 1)\<close>: the first occurrence only.\<close>

fun replace_first :: "string \<Rightarrow> string \<Rightarrow> string \<Rightarrow> string" where
  "replace_first old new [] = (if old = [] then new else [])"
| "replace_first old new (c # cs) =
     (if prefix old (c # cs) then new @ drop (length old) (c # cs)
      else c # replace_first old new cs)"

definition unmask :: "token_store \<Rightarrow> string \<Rightarrow> RedactionToken list option \<Rightarrow> string" where
  "unmask store txt given =
     (let toks = (case given of None \<Rightarrow> map snd store | Some ts \<Rightarrow> ts) in
      if toks = [] then txt
      else foldl (\<lambda>result t. replace_first (token_id t) (original_value t) result) txt
             (sorted_reverse start_pos toks))"

section \<open>The specification's words, as definitions\<close>

text \<open>The value of a string of decimal digits.\<close>

definition dec_value :: "string \<Rightarrow> nat" where
  "dec_value s = foldl (\<lambda>a c. a * 10 + (ord c - 48)) 0 s"

definition ssn_accepts :: "string \<Rightarrow> bool" where
  "ssn_accepts text =
     (let d = remove_non_digits text;
          area = slice 0 3 d; group_no = slice 3 5 d; serial = slice 5 9 d
      in length d = 9 \<and> area \<noteq> ''000'' \<and> area \<noteq> ''666'' \<and> \<not> prefix ''9'' area \<and>
         group_no \<noteq> ''00'' \<and> serial \<noteq> ''0000'')"

text \<open>
  The chunk boundaries. A boundary \<open>b\<close> of a text is \<^emph>\<open>after a space\<close> when the character
  before it is a space. For the chunk that starts at \<open>s\<close> the window is \<open>[s, s + chunk_size)\<close>,
  and the hard limit is \<open>s + chunk_size\<close>. \<open>boundary_claimed\<close> follows the specification: after a
  space, or at the hard limit when the window holds no space. \<open>boundary_amended\<close> differs in the
  window only: no space after the window's first character. \<open>boundaries ok chunks\<close> says that
  the end of every chunk but the last satisfies \<open>ok\<close>.
\<close>

definition after_space :: "string \<Rightarrow> nat \<Rightarrow> bool" where
  "after_space txt b = (0 < b \<and> txt ! (b - 1) = CHR '' '')"

definition no_space :: "string \<Rightarrow> nat \<Rightarrow> nat \<Rightarrow> bool" where
  "no_space txt i j = list_all (\<lambda>k. txt ! k \<noteq> CHR '' '') [i..<j]"

definition boundary_claimed :: "nat \<Rightarrow> string \<Rightarrow> nat \<Rightarrow> nat \<Rightarrow> bool" where
  "boundary_claimed csize txt s b = (after_space txt b \<or> (b = s + csize \<and> no_space txt s b))"

definition boundary_amended :: "nat \<Rightarrow> string \<Rightarrow> nat \<Rightarrow> nat \<Rightarrow> bool" where
  "boundary_amended csize txt s b =
     (after_space txt b \<or> (b = s + csize \<and> no_space txt (Suc s) b))"

definition boundaries :: "(nat \<Rightarrow> nat \<Rightarrow> bool) \<Rightarrow> (string \<times> nat) list \<Rightarrow> bool" where
  "boundaries ok chunks = list_all (\<lambda>(c, s). ok s (s + length c)) (butlast chunks)"

text \<open>
  The Luhn checksum in the specification's words: the sum of the digits, every second digit
  from the right doubled and digit-summed. \<open>luhn_sum\<close> takes the digits from the right.
\<close>

definition double_digit_sum :: "int \<Rightarrow> int" where
  "double_digit_sum d = (2 * d) div 10 + (2 * d) mod 10"

fun luhn_sum :: "int list \<Rightarrow> int" where
  "luhn_sum [] = 0"
| "luhn_sum [x] = x"
| "luhn_sum (x # y # zs) = x + double_digit_sum y + luhn_sum zs"

definition digit_values :: "string \<Rightarrow> int list" where
  "digit_values s = map (\<lambda>c. int (ord c - 48)) s"

definition credit_card_accepts :: "string \<Rightarrow> bool" where
  "credit_card_accepts text =
     (let d = remove_non_digits text
      in 13 \<le> length d \<and> length d \<le> 19 \<and> luhn_sum (rev (digit_values d)) mod 10 = 0)"

text \<open>
  The passport candidates of the specification: the form without spaces is alphanumeric and
  has 6 to 9 characters. A character is numeric without being a digit when \<open>str.isnumeric\<close>
  holds of it and \<open>str.isdigit\<close> does not (the fractions U+00BC to U+00BE).
\<close>

definition numeric_not_digit :: "char \<Rightarrow> bool" where
  "numeric_not_digit c = (py_isnumeric c \<and> \<not> py_isdigit c)"

definition passport_claimed :: "string \<Rightarrow> bool" where
  "passport_claimed text =
     (let clean_text = replace_all '' '' [] text
      in str_isalnum clean_text \<and> 6 \<le> length clean_text \<and> length clean_text \<le> 9)"

text \<open>
  The IP addresses of the specification. An IPv4 address: four parts between dots, each a
  non-empty string of decimal digits with a value of at most 255. An IPv6 address: at most
  two parts when split on \<open>::\<close>, at most 8 groups between colons (the non-empty pieces), each
  of at most 4 hexadecimal digits.
\<close>

definition decimal_octet :: "string \<Rightarrow> bool" where
  "decimal_octet p = (p \<noteq> [] \<and> list_all py_isdecimal p \<and> dec_value p \<le> 255)"

definition ipv4_claimed :: "string \<Rightarrow> bool" where
  "ipv4_claimed text =
     (length (split text ''.'') = 4 \<and> list_all decimal_octet (split text ''.''))"

definition hex_digit :: "char \<Rightarrow> bool" where
  "hex_digit c =
     ((48 \<le> ord c \<and> ord c \<le> 57) \<or> (97 \<le> ord c \<and> ord c \<le> 102) \<or>
      (65 \<le> ord c \<and> ord c \<le> 70))"

definition groups :: "string \<Rightarrow> string list" where
  "groups text = filter (\<lambda>g. g \<noteq> []) (split text '':'')"

definition ipv6_claimed :: "string \<Rightarrow> bool" where
  "ipv6_claimed text =
     (length (split text ''::'') \<le> 2 \<and> length (groups text) \<le> 8 \<and>
      list_all (\<lambda>g. length g \<le> 4 \<and> list_all hex_digit g) (groups text))"

text \<open>
  What the two checks of the validator come to: a part or group is whatever \<open>int\<close> accepts,
  and the groups are counted (exactly 8 pieces) only when the text holds no \<open>::\<close>.
\<close>

definition int_octet :: "string \<Rightarrow> bool" where
  "int_octet p = (case py_int 10 p of None \<Rightarrow> False | Some num \<Rightarrow> 0 \<le> num \<and> num \<le> 255)"

definition ipv4_amended :: "string \<Rightarrow> bool" where
  "ipv4_amended text =
     (length (split text ''.'') = 4 \<and> list_all int_octet (split text ''.''))"

definition int_group :: "string \<Rightarrow> bool" where
  "int_group g = (length g \<le> 4 \<and> py_int 16 g \<noteq> None)"

definition ipv6_amended :: "string \<Rightarrow> bool" where
  "ipv6_amended text =
     ((if contains ''::'' text then length (split text ''::'') \<le> 2
       else length (split text '':'') = 8) \<and>
      list_all int_group
        (filter (\<lambda>g. g \<noteq> []) (split (replace_all ''::'' '':'' text) '':'')))"

text \<open>The result that leaves a text as it is: the same text and no tokens.\<close>

definition unchanged :: "string \<Rightarrow> RedactionResult" where
  "unchanged txt = \<lparr>redacted_text = txt, tokens = []\<rparr>"
section \<open>Configurations used as examples\<close>



section \<open>Integer parsing on digit strings\<close>

lemma decimal_not_space: "py_isdecimal c \<Longrightarrow> \<not> int_isspace c"
  by (auto simp: py_isdecimal_def int_isspace_def)

lemma digit_in_decimal: "py_isdecimal c \<Longrightarrow> digit_in 10 c = Some (ord c - 48)"
  by (auto simp: py_isdecimal_def digit_in_def digit_value_def)

lemma decimal_not_underscore: "py_isdecimal c \<Longrightarrow> c \<noteq> CHR ''_''"
  by (auto simp: py_isdecimal_def ord_def)

lemma more_digits_decimal:
  "list_all py_isdecimal s \<Longrightarrow>
   more_digits 10 acc s = Some (foldl (\<lambda>a c. a * 10 + (ord c - 48)) acc s)"
  by (induction "10::nat" acc s rule: more_digits.induct)
     (auto simp: digit_in_decimal decimal_not_underscore)

lemma strip_decimal:
  assumes "s \<noteq> []" "list_all py_isdecimal s"
  shows "strip s = s"
proof -
  from assms obtain c cs where s: "s = c # cs" by (cases s) auto
  with assms have "\<not> int_isspace c" by (simp add: decimal_not_space)
  then have 1: "dropWhile int_isspace s = s" by (simp add: s)
  from assms have "\<not> int_isspace (last s)"
    by (metis decimal_not_space last_in_set list_all_iff)
  then have 2: "dropWhile int_isspace (rev s) = rev s"
    using assms(1) by (cases "rev s") (auto simp: last_rev hd_rev dest: arg_cong[where f=hd])
  show ?thesis by (simp add: strip_def 1 2)
qed

lemma py_int_decimal:
  assumes "s \<noteq> []" "list_all py_isdecimal s"
  shows "py_int 10 s = Some (int (dec_value s))"
proof -
  from assms obtain c cs where s: "s = c # cs" by (cases s) auto
  have c: "py_isdecimal c" and cs: "list_all py_isdecimal cs" using assms s by auto
  have st: "strip (c # cs) = c # cs" using strip_decimal[OF assms] s by simp
  have "c \<noteq> CHR ''-''" "c \<noteq> CHR ''+''" using c by (auto simp: py_isdecimal_def ord_def)
  then show ?thesis
    using c cs
    by (simp add: py_int_def st s unprefixed_def digit_run_def
        digit_in_decimal more_digits_decimal dec_value_def)
qed

lemma ord_digit_iff:
  "ord c = 48 \<longleftrightarrow> c = CHR ''0''" "ord c = 54 \<longleftrightarrow> c = CHR ''6''" "ord c = 57 \<longleftrightarrow> c = CHR ''9''"
  unfolding ord_def by (auto simp: of_char_eq_iff[symmetric, where ?'a=nat])

lemma decimal_value:
  assumes "py_isdecimal c"
  shows "ord c - 48 \<le> 9"
    and "ord c - 48 = 0 \<longleftrightarrow> c = CHR ''0''"
    and "ord c - 48 = 6 \<longleftrightarrow> c = CHR ''6''"
    and "ord c - 48 = 9 \<longleftrightarrow> c = CHR ''9''"
proof -
  have b: "48 \<le> ord c" "ord c \<le> 57" using assms by (simp_all add: py_isdecimal_def)
  show "ord c - 48 \<le> 9" using b by arith
  have "ord c - 48 = 0 \<longleftrightarrow> ord c = 48" using b by arith
  then show "ord c - 48 = 0 \<longleftrightarrow> c = CHR ''0''" by (simp only: ord_digit_iff)
  have "ord c - 48 = 6 \<longleftrightarrow> ord c = 54" using b by arith
  then show "ord c - 48 = 6 \<longleftrightarrow> c = CHR ''6''" by (simp only: ord_digit_iff)
  have "ord c - 48 = 9 \<longleftrightarrow> ord c = 57" using b by arith
  then show "ord c - 48 = 9 \<longleftrightarrow> c = CHR ''9''" by (simp only: ord_digit_iff)
qed

lemma length9:
  assumes "length d = 9"
  obtains d0 d1 d2 d3 d4 d5 d6 d7 d8 where "d = [d0, d1, d2, d3, d4, d5, d6, d7, d8]"
  using assms by (auto simp: length_Suc_conv eval_nat_numeral)


lemma area_value:
  assumes "py_isdecimal a" "py_isdecimal b" "py_isdecimal c"
  shows "dec_value [a, b, c] = 0 \<longleftrightarrow> [a, b, c] = ''000''"
    and "dec_value [a, b, c] = 666 \<longleftrightarrow> [a, b, c] = ''666''"
    and "900 \<le> dec_value [a, b, c] \<longleftrightarrow> a = CHR ''9''"
proof -
  note v = decimal_value[OF assms(1)] decimal_value[OF assms(2)] decimal_value[OF assms(3)]
  show "dec_value [a, b, c] = 0 \<longleftrightarrow> [a, b, c] = ''000''"
    using v(2,6,10) by (auto simp: dec_value_def)
  show "dec_value [a, b, c] = 666 \<longleftrightarrow> [a, b, c] = ''666''"
    using v(1,5,9) v(3,7,11) unfolding dec_value_def foldl.simps list.inject by (simp; arith)
  show "900 \<le> dec_value [a, b, c] \<longleftrightarrow> a = CHR ''9''"
    using v(1,5,9) v(4) unfolding dec_value_def foldl.simps by (simp; arith)
qed



lemma dec_value_snoc: "dec_value (s @ [c]) = dec_value s * 10 + (ord c - 48)"
  by (simp add: dec_value_def)

lemma dec_value_zero_iff:
  "list_all py_isdecimal s \<Longrightarrow> dec_value s = 0 \<longleftrightarrow> s = replicate (length s) (CHR ''0'')"
proof (induction s rule: rev_induct)
  case Nil
  then show ?case by (simp add: dec_value_def)
next
  case (snoc c s)
  then have c: "py_isdecimal c" and s: "list_all py_isdecimal s" by simp_all
  have r: "replicate (length (s @ [c])) (CHR ''0'') = replicate (length s) (CHR ''0'') @ [CHR ''0'']"
    by (simp add: replicate_append_same)
  show ?case
    unfolding r dec_value_snoc using snoc.IH[OF s] decimal_value(2)[OF c] by simp
qed

lemma SSN_on_9:
  assumes d: "list_all py_isdecimal [d0, d1, d2, d3, d4, d5, d6, d7, d8]"
  shows "(case py_int 10 [d0, d1, d2] of
        None \<Rightarrow> None
      | Some area \<Rightarrow>
          if area = 0 \<or> area = 666 \<or> area \<ge> 900 then Some False
          else (case py_int 10 [d3, d4] of
            None \<Rightarrow> None
          | Some group_no \<Rightarrow>
              if group_no = 0 then Some False
              else (case py_int 10 [d5, d6, d7, d8] of
                None \<Rightarrow> None
              | Some serial \<Rightarrow> if serial = 0 then Some False else Some True)))
     = Some ([d0, d1, d2] \<noteq> ''000'' \<and> [d0, d1, d2] \<noteq> ''666'' \<and> d0 \<noteq> CHR ''9'' \<and>
             [d3, d4] \<noteq> ''00'' \<and> [d5, d6, d7, d8] \<noteq> ''0000'')"
proof -
  have a: "py_int 10 [d0, d1, d2] = Some (int (dec_value [d0, d1, d2]))"
    and g: "py_int 10 [d3, d4] = Some (int (dec_value [d3, d4]))"
    and s: "py_int 10 [d5, d6, d7, d8] = Some (int (dec_value [d5, d6, d7, d8]))"
    using d by (simp_all add: py_int_decimal)
  have av: "dec_value [d0, d1, d2] = 0 \<longleftrightarrow> [d0, d1, d2] = ''000''"
     "dec_value [d0, d1, d2] = 666 \<longleftrightarrow> [d0, d1, d2] = ''666''"
     "900 \<le> dec_value [d0, d1, d2] \<longleftrightarrow> d0 = CHR ''9''"
    using d area_value[of d0 d1 d2] by simp_all
  have gv: "dec_value [d3, d4] = 0 \<longleftrightarrow> [d3, d4] = ''00''"
    using d dec_value_zero_iff[of "[d3, d4]"] by (simp add: eval_nat_numeral)
  have sv: "dec_value [d5, d6, d7, d8] = 0 \<longleftrightarrow> [d5, d6, d7, d8] = ''0000''"
    using d dec_value_zero_iff[of "[d5, d6, d7, d8]"] by (simp add: eval_nat_numeral)
  have i: "\<And>n::nat. (int n = 0) = (n = 0)" "\<And>n::nat. (int n = 666) = (n = 666)"
     "\<And>n::nat. (900 \<le> int n) = (900 \<le> n)" by auto
  show ?thesis
    unfolding a g s option.case i av gv sv by simp
qed


section \<open>The chunking loop\<close>

lemma rfind_upto:
  "(case filter (\<lambda>i. txt ! i = CHR '' '') (rev [a..<m]) of [] \<Rightarrow> None | i # _ \<Rightarrow> Some i) = r \<Longrightarrow>
   (r = None \<longrightarrow> no_space txt a m) \<and>
   (\<forall>i. r = Some i \<longrightarrow> a \<le> i \<and> i < m \<and> txt ! i = CHR '' '' \<and> no_space txt (Suc i) m)"
proof (induction m arbitrary: r)
  case 0
  then show ?case by (auto simp: no_space_def)
next
  case (Suc m)
  show ?case
  proof (cases "a \<le> m")
    case False
    then show ?thesis using Suc.prems by (auto simp: no_space_def)
  next
    case True
    then have u: "rev [a..<Suc m] = m # rev [a..<m]" by simp
    show ?thesis
    proof (cases "txt ! m = CHR '' ''")
      case True
      then have "r = Some m" using Suc.prems unfolding u by simp
      then show ?thesis using True \<open>a \<le> m\<close> by (simp add: no_space_def)
    next
      case False
      then have "(case filter (\<lambda>i. txt ! i = CHR '' '') (rev [a..<m]) of [] \<Rightarrow> None | i # _ \<Rightarrow> Some i) = r"
        using Suc.prems unfolding u by simp
      from Suc.IH[OF this] show ?thesis
        using False \<open>a \<le> m\<close> by (auto simp: no_space_def list_all_iff less_Suc_eq)
    qed
  qed
qed

lemma chunk_end_facts:
  assumes "0 < csize" "start < length txt"
  shows "start < chunk_end csize txt start"
    and "chunk_end csize txt start \<le> length txt"
    and "chunk_end csize txt start < length txt \<Longrightarrow>
           boundary_amended csize txt start (chunk_end csize txt start)"
    and "chunk_end csize txt start \<le> start + csize"
proof -
  define e where "e = min (start + csize) (length txt)"
  define r where "r = rfind_space txt start e"
  have e: "start < e" "e \<le> length txt" using assms by (auto simp: e_def)
  have "(case filter (\<lambda>i. txt ! i = CHR '' '') (rev [start..<e]) of [] \<Rightarrow> None | i # _ \<Rightarrow> Some i) = r"
    using e by (simp add: r_def rfind_space_def min_absorb1)
  note rf = rfind_upto[OF this]
  have ce: "chunk_end csize txt start =
      (if e < length txt
       then (case r of None \<Rightarrow> e | Some ls \<Rightarrow> if ls > start then ls + 1 else e) else e)"
    unfolding chunk_end_def Let_def e_def[symmetric] r_def[symmetric] by (rule refl)
  show "start < chunk_end csize txt start"
    using e rf by (auto simp: ce split: option.splits)
  show "chunk_end csize txt start \<le> length txt"
    using e rf by (auto simp: ce split: option.splits)
  have "e \<le> start + csize" by (simp add: e_def)
  then show "chunk_end csize txt start \<le> start + csize"
    using e rf by (auto simp: ce split: option.splits)
  show "boundary_amended csize txt start (chunk_end csize txt start)"
    if "chunk_end csize txt start < length txt"
  proof -
    have el: "e < length txt" using that e by (auto simp: ce split: if_splits)
    then have es: "e = start + csize" by (auto simp: e_def)
    show ?thesis
    proof (cases r)
      case None
      then have "no_space txt start e" using rf by simp
      then have "no_space txt (Suc start) e" by (auto simp: no_space_def list_all_iff)
      then show ?thesis using None el es by (simp add: ce boundary_amended_def)
    next
      case (Some ls)
      then have ls: "start \<le> ls" "ls < e" "txt ! ls = CHR '' ''" "no_space txt (Suc ls) e"
        using rf by auto
      show ?thesis
      proof (cases "ls > start")
        case True
        then show ?thesis using Some el ls by (simp add: ce boundary_amended_def after_space_def)
      next
        case False
        then have "ls = start" using ls by simp
        then show ?thesis using Some el es ls by (simp add: ce boundary_amended_def)
      qed
    qed
  qed
qed


lemma slice_then_drop:
  assumes "start \<le> e"
  shows "slice start e txt @ drop e txt = drop start txt"
proof -
  have "drop start txt = drop start (take e txt @ drop e txt)" by simp
  also have "\<dots> = drop start (take e txt) @ drop (start - length (take e txt)) (drop e txt)"
    by (rule drop_append)
  also have "drop (start - length (take e txt)) (drop e txt) = drop e txt"
    using assms by (cases "e \<le> length txt") (simp_all add: min_def)
  finally show ?thesis by (simp add: slice_def)
qed

lemma boundaries_Cons:
  "boundaries ok ((c, s) # rest) =
     (if rest = [] then True else ok s (s + length c) \<and> boundaries ok rest)"
  by (simp add: boundaries_def)

lemma chunk_loop_result:
  assumes "0 < csize"
  shows "start \<le> length txt \<Longrightarrow>
    \<exists>rest. chunk_loop csize txt start acc = Some (acc @ rest) \<and>
           concat (map fst rest) = drop start txt \<and>
           boundaries (boundary_amended csize txt) rest \<and>
           (rest = [] \<longleftrightarrow> length txt \<le> start) \<and>
           (start + csize < length txt \<longrightarrow> 1 < length rest)"
proof (induction "length txt - start" arbitrary: start acc rule: less_induct)
  case less
  show ?case
  proof (cases "start < length txt")
    case False
    have 1: "chunk_loop csize txt start acc = Some (acc @ [])"
      using False by (subst chunk_loop.simps) simp
    have 2: "concat (map fst ([] :: (string \<times> nat) list)) = drop start txt"
      using False by simp
    have 3: "boundaries (boundary_amended csize txt) []"
      by (simp add: boundaries_def)
    have 4: "(([] :: (string \<times> nat) list) = []) = (length txt \<le> start)"
      using False by simp
    have 5: "start + csize < length txt \<longrightarrow> 1 < length ([] :: (string \<times> nat) list)"
      using False by simp
    show ?thesis
      apply (rule exI[of _ "[]"])
      apply (intro conjI)
          apply (rule 1)
         apply (rule 2)
        apply (rule 3)
       apply (rule 4)
      apply (rule 5)
      done
  next
    case True
    define e where "e = chunk_end csize txt start"
    note f = chunk_end_facts[OF assms True, folded e_def]
    have m: "length txt - e < length txt - start" using f(1,2) True by arith
    from less.hyps[OF m f(2), of "acc @ [(slice start e txt, start)]"]
    obtain rest where r:
      "chunk_loop csize txt e (acc @ [(slice start e txt, start)]) =
         Some ((acc @ [(slice start e txt, start)]) @ rest)"
      "concat (map fst rest) = drop e txt"
      "boundaries (boundary_amended csize txt) rest"
      "(rest = []) = (length txt \<le> e)"
      by blast
    have l: "start + length (slice start e txt) = e"
      using f(1,2) by (simp add: slice_def)
    have step: "chunk_loop csize txt start acc =
        chunk_loop csize txt e (acc @ [(slice start e txt, start)])"
      unfolding e_def using True by (subst chunk_loop.simps) simp
    have 1: "chunk_loop csize txt start acc = Some (acc @ ((slice start e txt, start) # rest))"
      unfolding step r(1) by simp
    have "slice start e txt @ drop e txt = drop start txt"
      by (rule slice_then_drop) (use f(1) in simp)
    then have 2: "concat (map fst ((slice start e txt, start) # rest)) = drop start txt"
      using r(2) by simp
    have 3: "boundaries (boundary_amended csize txt) ((slice start e txt, start) # rest)"
    proof (cases "rest = []")
      case True
      then show ?thesis by (simp add: boundaries_Cons)
    next
      case False
      then have "e < length txt" using r(4) by simp
      then have "boundary_amended csize txt start e" by (rule f(3))
      then show ?thesis using False r(3) by (simp add: boundaries_Cons l)
    qed
    have 4: "(((slice start e txt, start) # rest) = []) = (length txt \<le> start)"
      using True by simp
    have 5: "start + csize < length txt \<longrightarrow> 1 < length ((slice start e txt, start) # rest)"
    proof
      assume "start + csize < length txt"
      then have "e < length txt" using f(4) by simp
      then have "rest \<noteq> []" using r(4) by simp
      then show "1 < length ((slice start e txt, start) # rest)" by (cases rest) simp_all
    qed
    show ?thesis
      apply (rule exI[of _ "(slice start e txt, start) # rest"])
      apply (intro conjI)
          apply (rule 1)
         apply (rule 2)
        apply (rule 3)
       apply (rule 4)
      apply (rule 5)
      done
  qed
qed

lemma chunk_text_result:
  assumes "0 < csize" and "csize < length txt"
  shows "\<exists>chunks. chunk_text csize txt = Some chunks \<and>
           concat (map fst chunks) = txt \<and>
           boundaries (boundary_amended csize txt) chunks \<and> 1 < length chunks"
proof -
  have "0 \<le> length txt" by simp
  from chunk_loop_result[OF assms(1) this, of "[]"]
  obtain rest where r: "chunk_loop csize txt 0 [] = Some ([] @ rest)"
    "concat (map fst rest) = drop 0 txt"
    "boundaries (boundary_amended csize txt) rest"
    "0 + csize < length txt \<longrightarrow> 1 < length rest"
    by blast
  have "chunk_text csize txt = Some rest"
    using assms(2) r(1) by (simp add: chunk_text_def)
  moreover have "concat (map fst rest) = txt" using r(2) by simp
  moreover have "1 < length rest" using r(4) assms(2) by simp
  ultimately show ?thesis using r(3) by blast
qed

section \<open>Chunk boundaries\<close>

lemma chunk_loop_step:
  "start < length t \<Longrightarrow> chunk_end csize t start = e \<Longrightarrow>
   chunk_loop csize t start acc = chunk_loop csize t e (acc @ [(slice start e t, start)])"
  by (subst chunk_loop.simps) simp

lemma chunk_loop_done: "length t \<le> start \<Longrightarrow> chunk_loop csize t start acc = Some acc"
  by (subst chunk_loop.simps) simp

lemma chunk_end_examples:
  "chunk_end 3 '' abcd'' 0 = 3" "chunk_end 3 '' abcd'' 3 = 5"
  "chunk_end 5 ''ab cd ef gh'' 0 = 3" "chunk_end 5 ''ab cd ef gh'' 3 = 6"
  "chunk_end 5 ''ab cd ef gh'' 6 = 11"
  by (simp_all add: chunk_end_def rfind_space_def upt_rec[of _ "numeral _"] nth_Cons')

lemma chunk_text_examples:
  "chunk_text 3 '' abcd'' = Some [('' ab'', 0), (''cd'', 3)]"
  "chunk_text 5 ''ab cd ef gh'' = Some [(''ab '', 0), (''cd '', 3), (''ef gh'', 6)]"
proof -
  have "chunk_loop 3 '' abcd'' 0 [] = chunk_loop 3 '' abcd'' 3 [('' ab'', 0)]"
    by (subst chunk_loop_step[OF _ chunk_end_examples(1)]) (simp_all add: slice_def)
  also have "\<dots> = chunk_loop 3 '' abcd'' 5 [('' ab'', 0), (''cd'', 3)]"
    by (subst chunk_loop_step[OF _ chunk_end_examples(2)]) (simp_all add: slice_def)
  also have "\<dots> = Some [('' ab'', 0), (''cd'', 3)]"
    by (rule chunk_loop_done) simp
  finally show "chunk_text 3 '' abcd'' = Some [('' ab'', 0), (''cd'', 3)]"
    by (simp add: chunk_text_def)
  have "chunk_loop 5 ''ab cd ef gh'' 0 [] = chunk_loop 5 ''ab cd ef gh'' 3 [(''ab '', 0)]"
    by (subst chunk_loop_step[OF _ chunk_end_examples(3)]) (simp_all add: slice_def)
  also have "\<dots> = chunk_loop 5 ''ab cd ef gh'' 6 [(''ab '', 0), (''cd '', 3)]"
    by (subst chunk_loop_step[OF _ chunk_end_examples(4)]) (simp_all add: slice_def)
  also have "\<dots> = chunk_loop 5 ''ab cd ef gh'' 11 [(''ab '', 0), (''cd '', 3), (''ef gh'', 6)]"
    by (subst chunk_loop_step[OF _ chunk_end_examples(5)]) (simp_all add: slice_def)
  also have "\<dots> = Some [(''ab '', 0), (''cd '', 3), (''ef gh'', 6)]"
    by (rule chunk_loop_done) simp
  finally show "chunk_text 5 ''ab cd ef gh'' = Some [(''ab '', 0), (''cd '', 3), (''ef gh'', 6)]"
    by (simp add: chunk_text_def)
qed

text \<open>
  Claim C3. For a positive \<open>chunk_size\<close> and a text longer than it, \<open>chunk_text\<close> returns;
  the chunk texts, concatenated in order, are the text; and every boundary before the end of
  the text is after a space, or is the hard limit of its chunk with no space in the window
  after the window's first character.
\<close>

theorem chunk_text_boundaries:
  assumes "0 < csize" and "csize < length txt"
  shows "\<exists>chunks. chunk_text csize txt = Some chunks \<and>
           concat (map fst chunks) = txt \<and>
           boundaries (boundary_amended csize txt) chunks"
  using chunk_text_result[OF assms] by blast

theorem chunk_text_boundaries_witness:
  "chunk_text 5 ''ab cd ef gh'' = Some [(''ab '', 0), (''cd '', 3), (''ef gh'', 6)] \<and>
   (\<exists>chunks. chunk_text 5 ''ab cd ef gh'' = Some chunks \<and>
           concat (map fst chunks) = ''ab cd ef gh'' \<and>
           boundaries (boundary_amended 5 ''ab cd ef gh'') chunks)"
proof -
  have "(0::nat) < 5" "5 < length ''ab cd ef gh''" by simp_all
  then show ?thesis
    using chunk_text_boundaries[of 5 "''ab cd ef gh''"] chunk_text_examples(2) by blast
qed

text \<open>
  The boundary rule as the specification words it (no space anywhere in the window) fails
  when the only space of a window is its first character: with \<open>chunk_size = 3\<close> the text
  \<open>" abcd"\<close> is cut at the hard limit 3, after \<open>b\<close>, though the window \<open>" ab"\<close> holds a space.
\<close>

theorem chunk_text_counterexample:
  "chunk_text 3 '' abcd'' = Some [('' ab'', 0), (''cd'', 3)] \<and>
   \<not> boundaries (boundary_claimed 3 '' abcd'') [('' ab'', 0), (''cd'', 3)]"
  by (simp add: chunk_text_examples boundaries_def boundary_claimed_def after_space_def no_space_def
      upt_rec[of _ "numeral _"])

section \<open>The credit card validator\<close>

lemma digits_of_decimal:
  "list_all py_isdecimal s \<Longrightarrow> digits_of s = Some (digit_values s)"
proof (induction s)
  case Nil
  show ?case by (simp add: digit_values_def)
next
  case (Cons c s)
  have "py_int 10 [c] = Some (int (dec_value [c]))"
    by (rule py_int_decimal) (use Cons.prems in simp_all)
  then have "py_int 10 [c] = Some (int (ord c - 48))" by (simp add: dec_value_def)
  then show ?case using Cons by (simp add: digit_values_def)
qed

lemma doubled_digits:
  "list_all (\<lambda>d. map_option sum_list (digits_of (str_int (d * 2))) = Some (double_digit_sum d))
     [0, 1, 2, 3, 4, 5, 6, 7, 8, 9]"
  by code_simp

lemma doubled_digit:
  assumes "0 \<le> d" "d \<le> 9"
  shows "\<exists>ds2. digits_of (str_int (d * 2)) = Some ds2 \<and> sum_list ds2 = double_digit_sum d"
proof -
  have "d \<in> set [0, 1, 2, 3, 4, 5, 6, 7, 8, 9]" using assms by (simp; arith)
  then have "map_option sum_list (digits_of (str_int (d * 2))) = Some (double_digit_sum d)"
    using doubled_digits unfolding list_all_iff by blast
  then show ?thesis by (cases "digits_of (str_int (d * 2))") simp_all
qed

lemma add_doubled_digits:
  "list_all (\<lambda>d. 0 \<le> d \<and> d \<le> 9) ds \<Longrightarrow>
   add_doubled checksum ds = Some (checksum + sum_list (map double_digit_sum ds))"
proof (induction ds arbitrary: checksum)
  case Nil
  show ?case by simp
next
  case (Cons d ds)
  then obtain ds2 where d: "digits_of (str_int (d * 2)) = Some ds2" "sum_list ds2 = double_digit_sum d"
    using doubled_digit[of d] by auto
  show ?case using Cons d by simp
qed

lemma every_second_Cons: "every_second (y # zs) = y # every_second (tl zs)"
  by (cases zs) simp_all

lemma every_second_subset: "set (every_second xs) \<subseteq> set xs"
  by (induction xs rule: every_second.induct) auto

lemma luhn_sum_split:
  "sum_list (every_second xs) + sum_list (map double_digit_sum (every_second (tl xs))) = luhn_sum xs"
proof (induction xs rule: luhn_sum.induct)
  case 1
  show ?case by simp
next
  case (2 x)
  show ?case by simp
next
  case (3 x y zs)
  then show ?case by (simp add: every_second_Cons[of y zs])
qed

lemma digit_values_range:
  "list_all py_isdecimal s \<Longrightarrow> list_all (\<lambda>d. 0 \<le> d \<and> d \<le> 9) (digit_values s)"
  by (induction s) (auto simp: digit_values_def py_isdecimal_def)

lemma luhn_checksum_decimal:
  assumes "list_all py_isdecimal s"
  shows "luhn_checksum s = Some (luhn_sum (rev (digit_values s)) mod 10)"
proof -
  define xs where "xs = rev (digit_values s)"
  have r: "list_all (\<lambda>d. 0 \<le> d \<and> d \<le> 9) xs"
    using digit_values_range[OF assms] by (simp add: xs_def list_all_iff)
  have "set (every_second (tl xs)) \<subseteq> set xs"
    using every_second_subset[of "tl xs"] by (cases xs) auto
  then have "list_all (\<lambda>d. 0 \<le> d \<and> d \<le> 9) (every_second (tl xs))"
    using r unfolding list_all_iff by blast
  then have a: "add_doubled (sum_list (every_second xs)) (every_second (tl xs)) =
      Some (luhn_sum xs)"
    by (simp add: add_doubled_digits luhn_sum_split)
  show ?thesis
    unfolding luhn_checksum_def digits_of_decimal[OF assms] Let_def
    by (simp add: a[unfolded xs_def])
qed

lemma CreditCard_on_text:
  "CreditCardRedactor_validate text = Some (credit_card_accepts text)"
proof -
  have "list_all py_isdecimal (remove_non_digits text)"
    by (simp add: remove_non_digits_def list_all_iff)
  from luhn_checksum_decimal[OF this] show ?thesis
    by (auto simp: CreditCardRedactor_validate_def credit_card_accepts_def Let_def)
qed

lemma credit_card_examples:
  "credit_card_accepts ''4532148803436467'' = False"
  "credit_card_accepts ''1234567890123456'' = False"
  "credit_card_accepts ''4532015112830366'' = True"
  "credit_card_accepts ''4532-0151-1283-0366'' = True"
  by code_simp+

text \<open>
  Claim C4. \<open>CreditCardRedactor.validate\<close> returns (no \<open>ValueError\<close> leaves it), and it
  accepts exactly the candidates whose digits number 13 to 19 and whose Luhn sum is a
  multiple of 10. It rejects \<open>1234567890123456\<close> and accepts \<open>4532015112830366\<close>.
\<close>

theorem CreditCardRedactor_validate_luhn:
  "CreditCardRedactor_validate text = Some (credit_card_accepts text) \<and>
   CreditCardRedactor_validate ''1234567890123456'' = Some False \<and>
   CreditCardRedactor_validate ''4532015112830366'' = Some True"
  by (simp add: CreditCard_on_text credit_card_examples)

text \<open>
  The number \<open>4532148803436467\<close>, which the specification gives as accepted, is rejected:
  its Luhn sum is 73.
\<close>

theorem CreditCardRedactor_validate_counterexample:
  "CreditCardRedactor_validate ''4532148803436467'' = Some False \<and>
   luhn_sum (rev (digit_values ''4532148803436467'')) = 73"
proof -
  have "luhn_sum (rev (digit_values ''4532148803436467'')) = 73" by code_simp
  then show ?thesis by (simp add: CreditCard_on_text credit_card_examples)
qed

section \<open>The IP address validator\<close>

lemma ipv4_parts_all: "ipv4_parts parts = list_all int_octet parts"
  by (induction parts) (auto simp: int_octet_def split: option.splits)

lemma ipv6_parts_all: "ipv6_parts parts = list_all int_group (filter (\<lambda>g. g \<noteq> []) parts)"
  by (induction parts) (auto simp: int_group_def split: option.splits)

lemma validate_ipv4_amended: "validate_ipv4 text = ipv4_amended text"
  by (simp add: validate_ipv4_def ipv4_amended_def ipv4_parts_all Let_def)

lemma validate_ipv6_amended: "validate_ipv6 text = ipv6_amended text"
  by (auto simp: validate_ipv6_def ipv6_amended_def ipv6_parts_all)

lemma IPAddress_on_text:
  "IPAddressRedactor_validate text = (ipv4_amended text \<or> ipv6_amended text)"
  by (simp add: IPAddressRedactor_validate_def validate_ipv4_amended validate_ipv6_amended)

lemma counterexample_parts:
  "split ''1:1:1:1:1:1:1:1:1::'' ''.'' = [''1:1:1:1:1:1:1:1:1::'']"
  "split ''1:1:1:1:1:1:1:1:1::'' ''::'' = [''1:1:1:1:1:1:1:1:1'', []]"
  "split ''1:1:1:1:1:1:1:1:1::'' '':'' =
     [''1'', ''1'', ''1'', ''1'', ''1'', ''1'', ''1'', ''1'', ''1'', [], []]"
  "replace_all ''::'' '':'' ''1:1:1:1:1:1:1:1:1::'' = ''1:1:1:1:1:1:1:1:1:''"
  "split ''1:1:1:1:1:1:1:1:1:'' '':'' =
     [''1'', ''1'', ''1'', ''1'', ''1'', ''1'', ''1'', ''1'', ''1'', []]"
  "contains ''::'' ''1:1:1:1:1:1:1:1:1::''"
  by (simp_all add: split_def)

lemma one_digit_group:
  assumes "py_isdecimal c"
  shows "int_group [c]"
proof -
  have 1: "\<not> int_isspace c" "c \<noteq> CHR ''-''" "c \<noteq> CHR ''+''"
    using assms by (auto simp: py_isdecimal_def int_isspace_def ord_def)
  have 2: "digit_in 16 c = Some (ord c - 48)"
    using assms by (auto simp: py_isdecimal_def digit_in_def digit_value_def)
  show ?thesis
    using 1 2 by (simp add: int_group_def py_int_def strip_def unprefixed_def digit_run_def)
qed

lemma counterexample_groups:
  "list_all int_group [''1'', ''1'', ''1'', ''1'', ''1'', ''1'', ''1'', ''1'', ''1'']"
  by (simp add: one_digit_group py_isdecimal_def ord_def)

text \<open>
  Claim C6, at an input where the program departs from it: the text
  \<open>1:1:1:1:1:1:1:1:1::\<close> holds \<open>::\<close>, so its groups are never counted, and it is accepted with
  nine groups. It is neither an IPv4 nor an IPv6 address of the specification.
\<close>

theorem IPAddressRedactor_validate_nine_groups:
  "IPAddressRedactor_validate ''1:1:1:1:1:1:1:1:1::'' \<and>
   length (groups ''1:1:1:1:1:1:1:1:1::'') = 9 \<and>
   \<not> ipv4_claimed ''1:1:1:1:1:1:1:1:1::'' \<and>
   \<not> ipv6_claimed ''1:1:1:1:1:1:1:1:1::''"
proof -
  have "ipv6_amended ''1:1:1:1:1:1:1:1:1::''"
    unfolding ipv6_amended_def counterexample_parts using counterexample_groups by simp
  then have 1: "IPAddressRedactor_validate ''1:1:1:1:1:1:1:1:1::''"
    by (simp add: IPAddress_on_text)
  have 2: "length (groups ''1:1:1:1:1:1:1:1:1::'') = 9"
    unfolding groups_def counterexample_parts by simp
  have 3: "\<not> ipv4_claimed ''1:1:1:1:1:1:1:1:1::''"
    unfolding ipv4_claimed_def counterexample_parts by simp
  have 4: "\<not> ipv6_claimed ''1:1:1:1:1:1:1:1:1::''"
    unfolding ipv6_claimed_def 2 by simp
  show ?thesis using 1 2 3 4 by blast
qed

section \<open>The SSN validator\<close>

lemma SSN_on_text: "SSNRedactor_validate text = Some (ssn_accepts text)"
proof (cases "length (remove_non_digits text) = 9")
  case False
  then show ?thesis by (simp add: SSNRedactor_validate_def ssn_accepts_def Let_def)
next
  case True
  then obtain d0 d1 d2 d3 d4 d5 d6 d7 d8
    where d: "remove_non_digits text = [d0, d1, d2, d3, d4, d5, d6, d7, d8]"
    by (rule length9)
  have "list_all py_isdecimal (remove_non_digits text)"
    by (simp add: remove_non_digits_def list_all_iff)
  then have dec: "list_all py_isdecimal [d0, d1, d2, d3, d4, d5, d6, d7, d8]"
    by (simp only: d)
  have sl: "slice 0 3 [d0, d1, d2, d3, d4, d5, d6, d7, d8] = [d0, d1, d2]"
    "slice 3 5 [d0, d1, d2, d3, d4, d5, d6, d7, d8] = [d3, d4]"
    "slice 5 9 [d0, d1, d2, d3, d4, d5, d6, d7, d8] = [d5, d6, d7, d8]"
    by (simp_all add: slice_def)
  have l: "length [d0, d1, d2, d3, d4, d5, d6, d7, d8] = 9" by simp
  have p: "prefix ''9'' [d0, d1, d2] \<longleftrightarrow> d0 = CHR ''9''" by auto
  have "SSNRedactor_validate text =
      Some ([d0, d1, d2] \<noteq> ''000'' \<and> [d0, d1, d2] \<noteq> ''666'' \<and> d0 \<noteq> CHR ''9'' \<and>
             [d3, d4] \<noteq> ''00'' \<and> [d5, d6, d7, d8] \<noteq> ''0000'')"
    unfolding SSNRedactor_validate_def Let_def d sl l
    by (simp only: refl if_False not_True_eq_False SSN_on_9[OF dec])
  also have "\<dots> = Some (ssn_accepts text)"
    unfolding ssn_accepts_def Let_def d sl l p by (simp only: refl simp_thms)
  finally show ?thesis .
qed

lemma ssn_accepts_examples:
  "ssn_accepts ''123-45-6789''" "\<not> ssn_accepts ''000-12-3456''" "\<not> ssn_accepts ''123-00-4567''"
  "ssn_accepts ''899-01-0001''"
  by code_simp+

text \<open>
  Claim C7. \<open>SSNRedactor.validate\<close> never raises, and it accepts exactly the candidates
  whose digits (everything else removed) number nine, whose area (the first three) is not
  000, not 666 and does not begin with 9, whose group (the next two) is not 00 and whose
  serial (the last four) is not 0000. In particular it accepts 123-45-6789 and rejects
  000-12-3456 and 123-00-4567.
\<close>

theorem SSNRedactor_validate_exact:
  "SSNRedactor_validate text = Some (ssn_accepts text) \<and>
   SSNRedactor_validate ''123-45-6789'' = Some True \<and>
   SSNRedactor_validate ''000-12-3456'' = Some False \<and>
   SSNRedactor_validate ''123-00-4567'' = Some False"
  using ssn_accepts_examples by (simp add: SSN_on_text)

theorem SSNRedactor_validate_exact_witness:
  "SSNRedactor_validate ''899-01-0001'' = Some True"
  using SSNRedactor_validate_exact [of "''899-01-0001''"] ssn_accepts_examples(4) by simp

section \<open>The passport validator\<close>

lemma alnum_cases:
  "py_isalnum c \<Longrightarrow> py_isalpha c \<or> py_isdigit c \<or> numeric_not_digit c"
  by (auto simp: py_isalnum_def py_isdigit_def numeric_not_digit_def)

lemma Passport_on_alnum:
  assumes "passport_claimed text"
  shows "PassportRedactor_validate text =
           (list_ex py_isalpha (replace_all '' '' [] text) \<or>
            \<not> list_ex numeric_not_digit (replace_all '' '' [] text))"
proof -
  define c where "c = replace_all '' '' [] text"
  have a: "str_isalnum c" "6 \<le> length c" "length c \<le> 9"
    using assms by (simp_all add: passport_claimed_def c_def Let_def)
  then have ne: "c \<noteq> []" by auto
  have v: "PassportRedactor_validate text = (list_ex py_isalpha c \<or> str_isdigit c)"
    using a by (auto simp: PassportRedactor_validate_def c_def[symmetric] Let_def)
  have "str_isdigit c \<longleftrightarrow> \<not> list_ex numeric_not_digit c" if "\<not> list_ex py_isalpha c"
  proof
    assume "str_isdigit c"
    then show "\<not> list_ex numeric_not_digit c"
      by (auto simp: str_isdigit_def list_all_iff list_ex_iff numeric_not_digit_def)
  next
    assume n: "\<not> list_ex numeric_not_digit c"
    have "py_isdigit x" if "x \<in> set c" for x
    proof -
      have "py_isalnum x" using a(1) that by (simp add: str_isalnum_def list_all_iff)
      moreover have "\<not> py_isalpha x" using \<open>\<not> list_ex py_isalpha c\<close> that by (auto simp: list_ex_iff)
      moreover have "\<not> numeric_not_digit x" using n that by (auto simp: list_ex_iff)
      ultimately show ?thesis using alnum_cases by blast
    qed
    then show "str_isdigit c" using ne by (simp add: str_isdigit_def list_all_iff)
  qed
  then show ?thesis unfolding v c_def[symmetric] by blast
qed

text \<open>
  Claim C10. On a candidate whose form without spaces is alphanumeric with 6 to 9
  characters, \<open>PassportRedactor.validate\<close> returns true exactly when that form holds a letter
  or holds no character that is numeric without being a digit.
\<close>

theorem PassportRedactor_validate_alnum:
  assumes "passport_claimed text"
  shows "PassportRedactor_validate text =
           (list_ex py_isalpha (replace_all '' '' [] text) \<or>
            \<not> list_ex numeric_not_digit (replace_all '' '' [] text))"
  using assms by (rule Passport_on_alnum)

theorem PassportRedactor_validate_alnum_witness:
  "passport_claimed ''AB 123456'' \<and> PassportRedactor_validate ''AB 123456'' \<and>
   passport_claimed ''123456789'' \<and> PassportRedactor_validate ''123456789''"
proof -
  have 1: "passport_claimed ''AB 123456''" by code_simp
  have 2: "passport_claimed ''123456789''" by code_simp
  have 3: "list_ex py_isalpha (replace_all '' '' [] ''AB 123456'')" by code_simp
  have 4: "\<not> list_ex numeric_not_digit (replace_all '' '' [] ''123456789'')" by code_simp
  show ?thesis
    using PassportRedactor_validate_alnum[OF 1] PassportRedactor_validate_alnum[OF 2] 1 2 3 4
    by blast
qed

text \<open>
  An alphanumeric string with no letter need not be all digits: six times the fraction
  U+00BD is alphanumeric, holds no letter, and is rejected.
\<close>

theorem PassportRedactor_validate_counterexample:
  "passport_claimed (replicate 6 (CHR 0xBD)) \<and>
   \<not> list_ex py_isalpha (replicate 6 (CHR 0xBD)) \<and>
   \<not> PassportRedactor_validate (replicate 6 (CHR 0xBD))"
  by code_simp

section \<open>The empty input\<close>

text \<open>
  Claim C9. On the empty string \<open>redact\<close> and \<open>redact_async\<close> return the empty text with no
  tokens, and the token store is the one they were given, whatever \<open>store_tokens\<close> is.
\<close>

theorem redact_empty:
  "redact hl svc store [] store_tokens = Some (\<lparr>redacted_text = [], tokens = []\<rparr>, store) \<and>
   redact_async hl svc store [] store_tokens = Some (\<lparr>redacted_text = [], tokens = []\<rparr>, store)"
  by (simp add: redact_def redact_async_def redact_async_dispatch_def)

theorem redact_empty_witness:
  "redact \<lparr>sha256_hexdigest = (\<lambda>s. []), md5_hexdigest = (\<lambda>s. [])\<rparr>
     \<lparr>redactors = [], chunk_size = 5000, parallel = True, async_threshold = 1000,
      use_cloud_detection = False, cloud_detector = None\<rparr>
     [(''k'', \<lparr>token_id = ''k'', original_value = ''v'', redaction_type = EMAIL,
              start_pos = 0, end_pos = 1\<rparr>)] [] True
   = Some (\<lparr>redacted_text = [], tokens = []\<rparr>,
       [(''k'', \<lparr>token_id = ''k'', original_value = ''v'', redaction_type = EMAIL,
              start_pos = 0, end_pos = 1\<rparr>)])"
  using redact_empty by blast

section \<open>The size threshold of \<open>redact_async\<close>\<close>

lemma dispatch_cases:
  assumes "txt \<noteq> []" "length txt \<le> chunk_size svc"
  shows "length txt < async_threshold svc \<Longrightarrow> redact_async_dispatch svc txt = Inline"
    and "length txt > async_threshold svc \<Longrightarrow> redact_async_dispatch svc txt = Executor"
    and "async_threshold svc = 0 \<Longrightarrow> redact_async_dispatch svc txt = Executor"
    and "length txt = async_threshold svc \<Longrightarrow> redact_async_dispatch svc txt = Inline"
  using assms by (auto simp: redact_async_dispatch_def)

text \<open>
  Claim C5, at the input where the program departs from it: a text of exactly
  \<open>async_threshold\<close> characters (here three) is run inline, not given to the executor.
\<close>

theorem redact_async_at_threshold:
  "redact_async_dispatch
     \<lparr>redactors = [], chunk_size = 5000, parallel = True, async_threshold = 3,
      use_cloud_detection = False, cloud_detector = None\<rparr> ''abc'' = Inline"
  by (simp add: redact_async_dispatch_def)

section \<open>A failing detector\<close>

lemma store_no_tokens: "store_tokens_in store [] = store"
  by (simp add: store_tokens_in_def)

lemma detect_pii_raises:
  assumes "get_client det = Some ()" and "recognize_pii_entities det txt = Inl e"
  shows "detect_pii det txt = Some []"
  using assms by (simp add: detect_pii_def)

lemma AzureDetector_redact_raises:
  assumes "get_client det = Some ()" and "recognize_pii_entities det txt = Inl e"
  shows "AzureDetector_redact hl det txt = Some (unchanged txt)"
  using detect_pii_raises[OF assms]
  by (simp add: AzureDetector_redact_def redact_with_entities_def unchanged_def)

lemma redact_single_raises:
  assumes "get_client det = Some ()" and "recognize_pii_entities det txt = Inl e"
    and "use_cloud_detection svc" and "cloud_detector svc = Some det"
  shows "redact_single hl svc store txt offs store_tokens = Some (unchanged txt, store)"
  using AzureDetector_redact_raises[OF assms(1,2), of hl] assms(3,4)
  by (simp add: redact_single_def store_no_tokens unchanged_def)

lemma redact_chunks_unchanged:
  assumes "\<And>c s. redact_single hl svc store c s False = Some (unchanged c, store)"
  shows "redact_chunks hl svc store chunks = Some (map (\<lambda>c. unchanged (fst c)) chunks)"
proof (induction chunks)
  case Nil
  show ?case by simp
next
  case (Cons c chunks)
  obtain t s where c: "c = (t, s)" by (cases c)
  show ?case unfolding c using Cons.IH by (simp add: assms)
qed

lemma process_async_unchanged:
  assumes "\<And>c s. redact_single hl svc store c s False = Some (unchanged c, store)"
  shows "process_async (process_chunk hl svc store) chunks =
           map Some (map (\<lambda>c. unchanged (fst c)) chunks)"
  by (simp add: process_async_def process_chunk_def assms split_beta)

lemma merge_results_unchanged:
  "merge_results (map (\<lambda>c. (fst c, snd c, [])) chunks) = (concat (map fst chunks), [])"
proof (cases chunks)
  case Nil
  then show ?thesis by (simp add: merge_results_def)
next
  case (Cons c cs)
  show ?thesis
  proof (cases cs)
    case Nil
    then show ?thesis using Cons by (simp add: merge_results_def)
  next
    case (Cons d ds)
    then show ?thesis using \<open>chunks = c # cs\<close>
      by (simp add: merge_results_def comp_def split_beta)
  qed
qed

lemma zip_unchanged:
  "map (\<lambda>(res, c). (redacted_text (the res), snd c, tokens (the res)))
     (zip (map Some (map (\<lambda>c. unchanged (fst c)) chunks)) chunks) =
   map (\<lambda>c. (fst c, snd c, [])) chunks"
  by (induction chunks) (simp_all add: unchanged_def)

lemma merge_chunk_results_unchanged:
  assumes "chunks \<noteq> []"
  shows "merge_chunk_results (map Some (map (\<lambda>c. unchanged (fst c)) chunks)) chunks =
           Some (unchanged (concat (map fst chunks)))"
proof (cases chunks)
  case Nil
  then show ?thesis using assms by simp
next
  case (Cons c cs)
  show ?thesis
  proof (cases cs)
    case Nil
    then show ?thesis using Cons by (simp add: merge_chunk_results_def unchanged_def)
  next
    case (Cons d ds)
    have all: "list_all (\<lambda>res. res \<noteq> None) (map Some (map (\<lambda>c. unchanged (fst c)) chunks))"
      by (simp add: list_all_iff)
    have "merge_chunk_results (map Some (map (\<lambda>c. unchanged (fst c)) chunks)) chunks =
        (case merge_results
                (map (\<lambda>(res, c). (redacted_text (the res), snd c, tokens (the res)))
                   (zip (map Some (map (\<lambda>c. unchanged (fst c)) chunks)) chunks)) of
           (merged_text, all_tokens) \<Rightarrow>
             Some \<lparr>redacted_text = merged_text, tokens = all_tokens\<rparr>)"
      unfolding merge_chunk_results_def using all
      by (simp add: \<open>chunks = c # cs\<close> Cons)
    also have "\<dots> = Some (unchanged (concat (map fst chunks)))"
      unfolding zip_unchanged merge_results_unchanged by (simp add: unchanged_def)
    finally show ?thesis .
  qed
qed

lemma merge_and_store_unchanged:
  assumes "chunks \<noteq> []"
  shows "merge_and_store store store_tokens (map Some (map (\<lambda>c. unchanged (fst c)) chunks)) chunks =
           Some (unchanged (concat (map fst chunks)), store)"
  unfolding merge_and_store_def merge_chunk_results_unchanged[OF assms]
  by (simp add: unchanged_def store_no_tokens)



lemma redact_chunked_unchanged:
  assumes "\<And>c s. redact_single hl svc store c s False = Some (unchanged c, store)"
    and "0 < chunk_size svc" and "chunk_size svc < length txt"
  shows "\<not> parallel svc \<Longrightarrow>
           redact_chunked hl svc store txt store_tokens = Some (unchanged txt, store)"
    and "redact_chunked_async hl svc store txt store_tokens = Some (unchanged txt, store)"
proof -
  obtain chunks where c: "chunk_text (chunk_size svc) txt = Some chunks"
    "concat (map fst chunks) = txt" "1 < length chunks"
    using chunk_text_result[OF assms(2,3)] by blast
  have ne: "chunks \<noteq> []" using c(3) by auto
  note m = merge_and_store_unchanged[OF ne, of store store_tokens, unfolded c(2)]
  show "redact_chunked hl svc store txt store_tokens = Some (unchanged txt, store)"
    if "\<not> parallel svc"
    unfolding redact_chunked_def c(1) using that
    by (simp add: redact_chunks_unchanged[of hl svc store, OF assms(1)] m del: map_map)
  show "redact_chunked_async hl svc store txt store_tokens = Some (unchanged txt, store)"
    unfolding redact_chunked_async_def c(1)
    by (simp add: redact_chunks_unchanged[of hl svc store, OF assms(1)]
        process_async_unchanged[of hl svc store, OF assms(1)] m del: map_map)
qed

lemma redact_async_detector_failure:
  assumes "get_client det = Some ()"
    and "\<And>t. \<exists>e. recognize_pii_entities det t = Inl e"
    and "use_cloud_detection svc" and "cloud_detector svc = Some det"
    and "0 < chunk_size svc"
  shows "redact_async hl svc store txt store_tokens = Some (unchanged txt, store)"
proof -
  have s: "redact_single hl svc store t offs st = Some (unchanged t, store)" for t offs st
    using assms(2)[of t] redact_single_raises[OF assms(1) _ assms(3,4)] by blast
  show ?thesis
  proof (cases "redact_async_dispatch svc txt")
    case NoWork
    then have "txt = []" by (simp add: redact_async_dispatch_def split: if_splits)
    then show ?thesis using NoWork by (simp add: redact_async_def unchanged_def)
  next
    case ChunkedAsync
    then have "chunk_size svc < length txt"
      by (simp add: redact_async_dispatch_def split: if_splits)
    from redact_chunked_unchanged(2)[of hl svc store, OF s assms(5) this]
    show ?thesis using ChunkedAsync by (simp add: redact_async_def)
  next
    case Executor
    then show ?thesis by (simp add: redact_async_def s)
  next
    case Inline
    then show ?thesis by (simp add: redact_async_def s)
  qed
qed


end
